theory Spec2Isabelle
  imports Main "HOL-Library.Sublist"
begin

section \<open>Data model\<close>

text \<open>
  Python values as far as \<open>ha/util/message_bus.py\<close> looks at them: the payload given to
  \<open>publish\<close>, the object returned by \<open>MessageConsumer.receive\<close> and the status a
  callback returns. \<open>PNone\<close> is Python's \<open>None\<close>: what \<open>receive\<close> gives on a timeout
  and what a callback without a \<open>return\<close> gives.
\<close>

datatype pyval =
    PNone
  | PBool bool
  | PInt int
  | PStr string
  | PList "pyval list"
  | PDict "(pyval \<times> pyval) list"

text \<open>
  An exception of class \<open>Exception\<close>, with the text \<open>str(e)\<close>. The \<open>except Exception\<close>
  clauses of the module catch exactly these.
\<close>

datatype exn = Exn string

fun str_of :: "exn \<Rightarrow> string" where
  "str_of (Exn s) = s"

subsection \<open>class CONSUMER_STATUS\<close>

definition SUCCESS :: string where "SUCCESS = ''success''"
definition FAILED_STOP :: string where "FAILED_STOP = ''failed_stop''"
definition SUCCESS_STOP :: string where "SUCCESS_STOP = ''success_stop''"

subsection \<open>class MessageBusConsumer: the object and its surroundings\<close>

text \<open>The fields \<open>__init__\<close> stores from its arguments and never writes again.\<close>

record consumer =
  consumer_id :: int
  consumer_group :: string
  message_type :: string
  name :: string
  auto_ack :: bool
  offset :: string
  timeout :: int

definition MessageBusConsumer_init ::
  "int \<Rightarrow> string \<Rightarrow> string \<Rightarrow> bool \<Rightarrow> string \<Rightarrow> int \<Rightarrow> consumer" where
  "MessageBusConsumer_init cid grp mtype aack off tmo =
     \<lparr>consumer_id = cid, consumer_group = grp, message_type = mtype,
      name = mtype @ ''-consumer-thread'', auto_ack = aack, offset = off, timeout = tmo\<rparr>"

text \<open>
  \<open>MessageBus.get_consumer\<close>; its keyword defaults are \<open>auto_ack=False\<close>,
  \<open>offset="earliest"\<close> and \<open>timeout=0\<close>.
\<close>

definition get_consumer ::
  "int \<Rightarrow> string \<Rightarrow> string \<Rightarrow> bool \<Rightarrow> string \<Rightarrow> int \<Rightarrow> consumer" where
  "get_consumer cid grp mtype aack off tmo = MessageBusConsumer_init cid grp mtype aack off tmo"

definition get_consumer_default :: "int \<Rightarrow> string \<Rightarrow> string \<Rightarrow> consumer" where
  "get_consumer_default cid grp mtype = get_consumer cid grp mtype False ''earliest'' 0"

text \<open>
  What the worker thread shares with the rest of the process: the event \<open>self._stop\<close>, the
  field \<open>self.flush_on_exit\<close> (both written by \<open>stop\<close> from another thread), and
  \<open>outside\<close>, the state of the transport and of the callback. \<open>__init__\<close> creates the
  event cleared and sets \<open>flush_on_exit = False\<close>.
\<close>

record 'x world =
  stop_flag :: bool
  flush_on_exit :: bool
  outside :: 'x

definition init_world :: "'x \<Rightarrow> 'x world" where
  "init_world x = \<lparr>stop_flag = False, flush_on_exit = False, outside = x\<rparr>"

text \<open>
  The calls the worker makes out of the module: \<open>self.consumer.receive(timeout=t)\<close>,
  \<open>self.consumer.ack()\<close> and \<open>self.callback(message)\<close>. Each returns or raises, and
  each takes time: whatever other threads do meanwhile, a call of \<open>stop\<close> included, is
  part of the world the call hands back.
\<close>

record 'x env =
  receive :: "int \<Rightarrow> 'x world \<Rightarrow> (exn + pyval) \<times> 'x world"
  ack :: "'x world \<Rightarrow> exn option \<times> 'x world"
  callback :: "pyval \<Rightarrow> 'x world \<Rightarrow> (exn + pyval) \<times> 'x world"

text \<open>What an observer of the worker sees, in order: its outgoing calls with their results,
  and the lines it logs.\<close>

datatype event =
    Receive int "exn + pyval"
  | Callback pyval "exn + pyval"
  | Ack "exn option"
  | LogCallerError exn
  | LogBusError exn
  | LogFlushStart string
  | LogFlushMessage pyval

section \<open>MessageBusConsumer.stop\<close>

text \<open>\<open>self.flush_on_exit = flush\<close>, then \<open>self._stop.set()\<close>.\<close>

definition stop :: "bool \<Rightarrow> 'x world \<Rightarrow> 'x world" where
  "stop flush w = (w\<lparr>flush_on_exit := flush\<rparr>)\<lparr>stop_flag := True\<rparr>"

section \<open>MessageBusConsumer.run\<close>

text \<open>
  One pass through the body of \<open>while not self._stop.is_set()\<close> ends at \<open>continue\<close> (or
  at the end of the body) or at \<open>break\<close>, with new values of the locals \<open>retry\<close> and
  \<open>message\<close>.
\<close>

datatype ctl = Continue | Break

record 'x pass =
  ctl :: ctl
  retry :: bool
  message :: pyval
  world :: "'x world"
  events :: "event list"

text \<open>
  Lines 121 to 138: the callback is called with \<open>message\<close>, and its status decides.
  An exception out of \<open>ack\<close> leaves the inner \<open>try\<close> (which covers the callback only)
  and reaches the outer handler of line 139, which logs and clears \<open>retry\<close>. A \<open>break\<close>
  leaves \<open>retry\<close> as it was on entry.
\<close>

definition deliver :: "'x env \<Rightarrow> bool \<Rightarrow> pyval \<Rightarrow> 'x world \<Rightarrow> 'x pass" where
  "deliver env retry0 msg w =
     (case callback env msg w of
        (Inl e, w1) \<Rightarrow>
          \<lparr>ctl = Continue, retry = True, message = msg, world = w1,
           events = [Callback msg (Inl e), LogCallerError e]\<rparr>
      | (Inr status, w1) \<Rightarrow>
          if status = PStr SUCCESS then
            (case ack env w1 of
               (None, w2) \<Rightarrow>
                 \<lparr>ctl = Continue, retry = False, message = msg, world = w2,
                  events = [Callback msg (Inr status), Ack None]\<rparr>
             | (Some e, w2) \<Rightarrow>
                 \<lparr>ctl = Continue, retry = False, message = msg, world = w2,
                  events = [Callback msg (Inr status), Ack (Some e), LogBusError e]\<rparr>)
          else if status = PStr FAILED_STOP then
            \<lparr>ctl = Break, retry = retry0, message = msg, world = w1,
             events = [Callback msg (Inr status)]\<rparr>
          else if status = PStr SUCCESS_STOP then
            (case ack env w1 of
               (None, w2) \<Rightarrow>
                 \<lparr>ctl = Break, retry = retry0, message = msg, world = w2,
                  events = [Callback msg (Inr status), Ack None]\<rparr>
             | (Some e, w2) \<Rightarrow>
                 \<lparr>ctl = Continue, retry = False, message = msg, world = w2,
                  events = [Callback msg (Inr status), Ack (Some e), LogBusError e]\<rparr>)
          else
            \<lparr>ctl = Continue, retry = True, message = msg, world = w1,
             events = [Callback msg (Inr status)]\<rparr>)"

text \<open>
  The whole body, lines 113 to 141. \<open>t\<close> is \<open>const.CORTX_HA_WAIT_TIMEOUT\<close>, a constant
  of a module that is not part of the sources at hand. When \<open>receive\<close> raises, \<open>message\<close>
  is not assigned and the outer handler runs.
\<close>

definition iteration :: "'x env \<Rightarrow> int \<Rightarrow> bool \<Rightarrow> pyval \<Rightarrow> 'x world \<Rightarrow> 'x pass" where
  "iteration env t retry0 msg w =
     (if \<not> retry0 then
        (case receive env t w of
           (Inl e, w1) \<Rightarrow>
             \<lparr>ctl = Continue, retry = False, message = msg, world = w1,
              events = [Receive t (Inl e), LogBusError e]\<rparr>
         | (Inr m, w1) \<Rightarrow>
             if m = PNone then
               \<lparr>ctl = Continue, retry = retry0, message = m, world = w1,
                events = [Receive t (Inr m)]\<rparr>
             else
               (let p = deliver env retry0 m w1
                in p\<lparr>events := Receive t (Inr m) # events p\<rparr>))
      else deliver env retry0 msg w)"

text \<open>
  The loop of line 112. It runs as long as the callback asks for retries, so the model counts
  passes: \<open>run_loop n\<close> makes at most \<open>n\<close> of them and says whether the loop was left
  (\<open>True\<close>) or is still running (\<open>False\<close>), with the world and the events so far. The event
  \<open>self._stop\<close> is read at the head of each pass and nowhere else.
\<close>

fun run_loop ::
  "nat \<Rightarrow> 'x env \<Rightarrow> int \<Rightarrow> bool \<Rightarrow> pyval \<Rightarrow> 'x world \<Rightarrow> bool \<times> 'x world \<times> event list" where
  "run_loop 0 env t retry0 msg w = (False, w, [])"
| "run_loop (Suc n) env t retry0 msg w =
     (if stop_flag w then (True, w, [])
      else
        (let p = iteration env t retry0 msg w
         in case ctl p of
              Break \<Rightarrow> (True, world p, events p)
            | Continue \<Rightarrow>
                (case run_loop n env t (retry p) (message p) (world p) of
                   (left, w', evs) \<Rightarrow> (left, w', events p @ evs))))"

text \<open>
  How a run of the thread's target ends: \<open>Stopped\<close> when \<open>run\<close> returns, \<open>Crashed e\<close>
  when an exception leaves it, \<open>Unfinished\<close> when the passes counted were not enough.
\<close>

datatype outcome = Unfinished | Stopped | Crashed exn

text \<open>
  The loop of line 148, \<open>while True\<close> around \<open>receive(timeout=1)\<close>. No \<open>try\<close> surrounds
  it: an exception out of \<open>receive\<close> or \<open>ack\<close> leaves \<open>run\<close>.
\<close>

fun flush_loop :: "nat \<Rightarrow> 'x env \<Rightarrow> 'x world \<Rightarrow> outcome \<times> 'x world \<times> event list" where
  "flush_loop 0 env w = (Unfinished, w, [])"
| "flush_loop (Suc n) env w =
     (case receive env 1 w of
        (Inl e, w1) \<Rightarrow> (Crashed e, w1, [Receive 1 (Inl e)])
      | (Inr m, w1) \<Rightarrow>
          if m = PNone then (Stopped, w1, [Receive 1 (Inr m)])
          else
            (case ack env w1 of
               (Some e, w2) \<Rightarrow>
                 (Crashed e, w2, [Receive 1 (Inr m), LogFlushMessage m, Ack (Some e)])
             | (None, w2) \<Rightarrow>
                 (case flush_loop n env w2 of
                    (out, w', evs) \<Rightarrow>
                      (out, w', Receive 1 (Inr m) # LogFlushMessage m # Ack None # evs))))"

text \<open>
  \<open>run\<close>: \<open>retry = False\<close>, the loop, then the flush when \<open>self.flush_on_exit\<close> is set.
  The local \<open>message\<close> is unbound until the first \<open>receive\<close> returns and is not read
  before; \<open>PNone\<close> stands for it.
\<close>

definition run ::
  "consumer \<Rightarrow> int \<Rightarrow> 'x env \<Rightarrow> nat \<Rightarrow> 'x world \<Rightarrow> outcome \<times> 'x world \<times> event list" where
  "run self CORTX_HA_WAIT_TIMEOUT env n w =
     (case run_loop n env CORTX_HA_WAIT_TIMEOUT False PNone w of
        (False, w1, evs) \<Rightarrow> (Unfinished, w1, evs)
      | (True, w1, evs) \<Rightarrow>
          if flush_on_exit w1 then
            (case flush_loop n env w1 of
               (out, w2, evs2) \<Rightarrow> (out, w2, evs @ LogFlushStart (message_type self) # evs2))
          else (Stopped, w1, evs))"

subsection \<open>Reading a trace\<close>

fun is_ack :: "event \<Rightarrow> bool" where
  "is_ack (Ack a) = True"
| "is_ack e = False"

fun is_callback :: "event \<Rightarrow> bool" where
  "is_callback (Callback m r) = True"
| "is_callback e = False"

fun is_receive :: "event \<Rightarrow> bool" where
  "is_receive (Receive t r) = True"
| "is_receive e = False"

definition acks :: "event list \<Rightarrow> nat" where
  "acks evs = length (filter is_ack evs)"

definition callbacks :: "event list \<Rightarrow> nat" where
  "callbacks evs = length (filter is_callback evs)"

definition polls :: "event list \<Rightarrow> nat" where
  "polls evs = length (filter is_receive evs)"

text \<open>The messages the polls of a trace brought, timeouts and failures left out.\<close>

fun received :: "event list \<Rightarrow> pyval list" where
  "received [] = []"
| "received (Receive t (Inr m) # evs) = (if m = PNone then received evs else m # received evs)"
| "received (e # evs) = received evs"

definition trace :: "bool \<times> 'x world \<times> event list \<Rightarrow> event list" where
  "trace r = snd (snd r)"



section \<open>A transport and a callback that follow a script\<close>

text \<open>
  Stand-ins for the message bus and the caller, to run the worker on concrete inputs:
  each call takes the next entry of its list. With its list used up, \<open>receive\<close> times out,
  \<open>ack\<close> succeeds and the callback returns nothing.
\<close>

record script =
  to_receive :: "(exn + pyval) list"
  to_return :: "(exn + pyval) list"
  to_ack :: "exn option list"

definition scripted :: "script env" where
  "scripted =
     \<lparr>receive = (\<lambda>t w. case to_receive (outside w) of
                     [] \<Rightarrow> (Inr PNone, w)
                   | r # rs \<Rightarrow> (r, w\<lparr>outside := (outside w)\<lparr>to_receive := rs\<rparr>\<rparr>)),
      ack = (\<lambda>w. case to_ack (outside w) of
                 [] \<Rightarrow> (None, w)
               | a # as \<Rightarrow> (a, w\<lparr>outside := (outside w)\<lparr>to_ack := as\<rparr>\<rparr>)),
      callback = (\<lambda>m w. case to_return (outside w) of
                      [] \<Rightarrow> (Inr PNone, w)
                    | r # rs \<Rightarrow> (r, w\<lparr>outside := (outside w)\<lparr>to_return := rs\<rparr>\<rparr>))\<rparr>"

definition playing ::
  "(exn + pyval) list \<Rightarrow> (exn + pyval) list \<Rightarrow> exn option list \<Rightarrow> script world" where
  "playing rs cs as = init_world \<lparr>to_receive = rs, to_return = cs, to_ack = as\<rparr>"




text \<open>
  What a flush that meets the messages \<open>ms\<close> looks like from outside: for each message a
  poll with timeout 1, the log line and the acknowledgement.
\<close>

fun flushed :: "pyval list \<Rightarrow> event list" where
  "flushed [] = []"
| "flushed (m # ms) = Receive 1 (Inr m) # LogFlushMessage m # Ack None # flushed ms"

text \<open>
  The calls of \<open>ack\<close> in a trace that returned: the acknowledgements that took place.
  (\<open>acks\<close> counts the calls, the ones that raised included.)
\<close>

definition acknowledged :: "event list \<Rightarrow> nat" where
  "acknowledged evs = length (filter (\<lambda>e. e = Ack None) evs)"

text \<open>
  What the transport does on a flush that meets the messages \<open>ms\<close>, from world \<open>w\<close> to
  world \<open>w'\<close>: each poll with timeout 1 brings the next message and the \<open>ack\<close> after it
  returns, and the poll after the last message brings nothing.
\<close>

fun drains :: "'x env \<Rightarrow> 'x world \<Rightarrow> pyval list \<Rightarrow> 'x world \<Rightarrow> bool" where
  "drains env w [] w' = (receive env 1 w = (Inr PNone, w'))"
| "drains env w (m # ms) w' =
     (m \<noteq> PNone \<and>
      (case receive env 1 w of
         (Inl e, w1) \<Rightarrow> False
       | (Inr m', w1) \<Rightarrow>
           m' = m \<and>
           (case ack env w1 of
              (None, w2) \<Rightarrow> drains env w2 ms w'
            | (Some e, w2) \<Rightarrow> False)))"

section \<open>MessageBusProducer.publish\<close>

text \<open>
  \<open>publish\<close> ends in one of three ways: it returns, it raises
  \<open>Exception(f"Invalid type of message {message}")\<close>, or an exception of \<open>json.dumps\<close> or of
  \<open>self.producer.send\<close> passes through it.
\<close>

datatype publish_error = InvalidTypeOfMessage pyval | Passed exn

text \<open>
  \<open>dumps\<close> is \<open>json.dumps\<close> and \<open>send\<close> is \<open>self.producer.send\<close>, both library code;
  \<open>'p\<close> is the state of the transport. The \<open>isinstance\<close> tests run in the order
  \<open>dict\<close>, \<open>str\<close>, \<open>list\<close>. A list goes to \<open>send\<close> as it is: the method does not look
  at its elements.
\<close>

definition publish ::
  "(pyval \<Rightarrow> exn + string) \<Rightarrow> (pyval \<Rightarrow> 'p \<Rightarrow> exn option \<times> 'p) \<Rightarrow> pyval \<Rightarrow> 'p
     \<Rightarrow> publish_error option \<times> 'p" where
  "publish dumps send msg p =
     (case msg of
        PDict kvs \<Rightarrow>
          (case dumps msg of
             Inl e \<Rightarrow> (Some (Passed e), p)
           | Inr s \<Rightarrow> (case send (PList [PStr s]) p of (r, p') \<Rightarrow> (map_option Passed r, p')))
      | PStr s \<Rightarrow> (case send (PList [msg]) p of (r, p') \<Rightarrow> (map_option Passed r, p'))
      | PList xs \<Rightarrow> (case send msg p of (r, p') \<Rightarrow> (map_option Passed r, p'))
      | _ \<Rightarrow> (Some (InvalidTypeOfMessage msg), p))"

text \<open>A transport that keeps every batch it is sent, oldest first.\<close>

definition keep_batch :: "pyval \<Rightarrow> pyval list \<Rightarrow> exn option \<times> pyval list" where
  "keep_batch batch sent = (None, sent @ [batch])"

text \<open>A stand-in for \<open>json.dumps\<close> that knows one mapping, \<open>{"a": 1}\<close>.\<close>

definition dumps_a1 :: "pyval \<Rightarrow> exn + string" where
  "dumps_a1 v =
     (if v = PDict [(PStr ''a'', PInt 1)] then Inr ''{\"a\": 1}''
      else Inl (Exn ''Object is not JSON serializable''))"

section \<open>MessageBus.register\<close>

text \<open>Python's \<open>p in s\<close> on strings.\<close>

fun occurs_in :: "string \<Rightarrow> string \<Rightarrow> bool" where
  "occurs_in p [] = (p = [])"
| "occurs_in p (c # cs) = (prefix p (c # cs) \<or> occurs_in p cs)"

definition already_exists :: "exn \<Rightarrow> bool" where
  "already_exists e = occurs_in ''TOPIC_ALREADY_EXISTS'' (str_of e)"

text \<open>
  Lines 241 to 247. \<open>list_message_types\<close> and \<open>register_message_type\<close> are the methods of
  \<open>MessageBusAdmin\<close>, library code; \<open>'a\<close> is the state of the transport's administration.
  Both calls are inside the \<open>try\<close>. The result is the exception that reaches the caller, if
  any.
\<close>

definition register ::
  "('a \<Rightarrow> (exn + string list) \<times> 'a) \<Rightarrow> (string list \<Rightarrow> int \<Rightarrow> 'a \<Rightarrow> exn option \<times> 'a)
     \<Rightarrow> string \<Rightarrow> int \<Rightarrow> 'a \<Rightarrow> exn option \<times> 'a" where
  "register list_message_types register_message_type mtype partitions a =
     (case list_message_types a of
        (Inl e, a1) \<Rightarrow> (if \<not> already_exists e then Some e else None, a1)
      | (Inr known, a1) \<Rightarrow>
          if mtype \<notin> set known then
            (case register_message_type [mtype] partitions a1 of
               (Some e, a2) \<Rightarrow> (if \<not> already_exists e then Some e else None, a2)
             | (None, a2) \<Rightarrow> (None, a2))
          else (None, a1))"

text \<open>
  An administration that holds the list of registered types and refuses, with the
  transport's marker in the text, to register a type it has.
\<close>

definition list_kept :: "string list \<Rightarrow> (exn + string list) \<times> string list" where
  "list_kept a = (Inr a, a)"

definition register_kept :: "string list \<Rightarrow> int \<Rightarrow> string list \<Rightarrow> exn option \<times> string list" where
  "register_kept mtypes partitions a =
     (if \<exists>x \<in> set mtypes. x \<in> set a
      then (Some (Exn ''KafkaError{code=TOPIC_ALREADY_EXISTS,val=36}''), a)
      else (None, a @ mtypes))"

text \<open>The view of a registrant that lost a race: it listed the types before the other
  registrant was done, and sees none.\<close>

definition list_stale :: "string list \<Rightarrow> (exn + string list) \<times> string list" where
  "list_stale a = (Inr [], a)"

text \<open>An administration that fails for another reason.\<close>

definition register_down :: "string list \<Rightarrow> int \<Rightarrow> string list \<Rightarrow> exn option \<times> string list" where
  "register_down mtypes partitions a = (Some (Exn ''broker not available''), a)"

section \<open>One pass of the worker loop\<close>



lemma retry_pass_is_deliver: "iteration env t True m w = deliver env True m w"
  by (simp add: iteration_def)





section \<open>The loop around the passes\<close>

lemma loop_stop: "stop_flag w \<Longrightarrow> run_loop (Suc n) env t r msg w = (True, w, [])"
  by simp


lemma loop_continue:
  "\<not> stop_flag w \<Longrightarrow> ctl (iteration env t r msg w) = Continue \<Longrightarrow>
   run_loop (Suc n) env t r msg w =
     (case run_loop n env t (retry (iteration env t r msg w)) (message (iteration env t r msg w))
             (world (iteration env t r msg w)) of
        (left, w', evs) \<Rightarrow> (left, w', events (iteration env t r msg w) @ evs))"
  by (simp add: Let_def)

lemma loop_prefix:
  assumes "\<not> stop_flag w"
  shows "\<exists>rest. trace (run_loop (Suc n) env t r msg w) = events (iteration env t r msg w) @ rest"
  using assms
  by (cases "ctl (iteration env t r msg w)") (simp_all add: trace_def Let_def split: prod.splits)

lemma loop_two_passes:
  assumes w: "\<not> stop_flag w" and p: "p = iteration env t r msg w" and c: "ctl p = Continue"
    and w': "\<not> stop_flag (world p)" and q: "q = iteration env t (retry p) (message p) (world p)"
  shows "\<exists>rest. trace (run_loop (Suc (Suc n)) env t r msg w) = events p @ events q @ rest"
proof -
  from loop_prefix[OF w', of n env t "retry p" "message p"] obtain rest where
    r: "trace (run_loop (Suc n) env t (retry p) (message p) (world p)) = events q @ rest"
    unfolding q by blast
  have "trace (run_loop (Suc (Suc n)) env t r msg w) =
        events p @ trace (run_loop (Suc n) env t (retry p) (message p) (world p))"
    using loop_continue[of w env t r msg "Suc n"] w c unfolding p
    by (simp add: trace_def split: prod.splits)
  with r show ?thesis by simp
qed


section \<open>The status of the callback decides\<close>

lemma pass_handed:
  assumes "(r \<and> msg = m \<and> w0 = w \<and> pre = [])
         \<or> (\<not> r \<and> receive env t w = (Inr m, w0) \<and> m \<noteq> PNone \<and> pre = [Receive t (Inr m)])"
  shows "iteration env t r msg w = (deliver env r m w0)\<lparr>events := pre @ events (deliver env r m w0)\<rparr>"
  using assms by (auto simp: iteration_def Let_def)







lemma deliver_raise:
  assumes "callback env m w = (Inl e, w1)"
  shows "deliver env r m w =
           \<lparr>ctl = Continue, retry = True, message = m, world = w1,
            events = [Callback m (Inl e), LogCallerError e]\<rparr>"
  using assms by (simp add: deliver_def)

lemma callback_first_exact:
  "\<exists>evs. events (deliver env r m w) = Callback m (fst (callback env m w)) # evs"
  by (simp add: deliver_def split: prod.splits sum.splits option.splits)

text \<open>
  Claim C3, as stated, at a callback that raises on its first call and returns \<open>SUCCESS\<close>
  on its second, while the call of \<open>ack\<close> raises: the claim has exactly one
  acknowledgement follow. The callback is called twice, and no acknowledgement takes
  place.
\<close>

theorem C3_ack_raises_counterexample:
  "run_loop 2 scripted 30 False PNone
       (playing [Inr (PStr ''m1'')] [Inl (Exn ''boom''), Inr (PStr SUCCESS)]
          [Some (Exn ''ack failed'')]) =
     (False, playing [] [] [],
      [Receive 30 (Inr (PStr ''m1'')), Callback (PStr ''m1'') (Inl (Exn ''boom'')),
       LogCallerError (Exn ''boom''), Callback (PStr ''m1'') (Inr (PStr SUCCESS)),
       Ack (Some (Exn ''ack failed'')), LogBusError (Exn ''ack failed'')])
   \<and> callbacks
       [Receive 30 (Inr (PStr ''m1'')), Callback (PStr ''m1'') (Inl (Exn ''boom'')),
        LogCallerError (Exn ''boom''), Callback (PStr ''m1'') (Inr (PStr SUCCESS)),
        Ack (Some (Exn ''ack failed'')), LogBusError (Exn ''ack failed'')] = 2
   \<and> acknowledged
       [Receive 30 (Inr (PStr ''m1'')), Callback (PStr ''m1'') (Inl (Exn ''boom'')),
        LogCallerError (Exn ''boom''), Callback (PStr ''m1'') (Inr (PStr SUCCESS)),
        Ack (Some (Exn ''ack failed'')), LogBusError (Exn ''ack failed'')] = 0"
  by (simp add: iteration_def deliver_def scripted_def playing_def init_world_def
        SUCCESS_def Let_def eval_nat_numeral callbacks_def acknowledged_def)

text \<open>
  Claim C3, amended. Take any pass that gives \<open>m\<close> to the callback, on a retry or after a
  poll, and let the callback raise \<open>e\<close>. The exception does not leave the pass: the pass
  logs it as its last event, does not call \<open>ack\<close>, and goes round the loop with \<open>retry\<close>
  set and \<open>m\<close> kept. The pass after it is the callback on \<open>m\<close> again, with no poll, and
  in the loop it comes next unless the stop event is set by then. When the callback then
  returns \<open>SUCCESS\<close>, the two passes have called the callback exactly twice and \<open>ack\<close>
  exactly once, after the second call of the callback; the message is acknowledged when
  that call of \<open>ack\<close> returns.
\<close>

theorem C3_callback_exception_is_retry:
  assumes h: "(r \<and> msg = m \<and> w0 = w \<and> pre = [])
            \<or> (\<not> r \<and> receive env t w = (Inr m, w0) \<and> m \<noteq> PNone \<and> pre = [Receive t (Inr m)])"
    and cb: "callback env m w0 = (Inl e, w1)"
    and p: "p = iteration env t r msg w"
  shows "p = \<lparr>ctl = Continue, retry = True, message = m, world = w1,
              events = pre @ [Callback m (Inl e), LogCallerError e]\<rparr>
       \<and> acks (events p) = 0
       \<and> iteration env t (retry p) (message p) (world p) = deliver env True m w1
       \<and> (\<not> stop_flag w \<and> \<not> stop_flag w1 \<longrightarrow>
            (\<forall>n. \<exists>rest. trace (run_loop (Suc (Suc n)) env t r msg w) =
                     events p @ Callback m (fst (callback env m w1)) # rest))
       \<and> (\<not> stop_flag w \<and> \<not> stop_flag w1
            \<and> callback env m w1 = (Inr (PStr SUCCESS), w2) \<and> ack env w2 = (a, w3) \<longrightarrow>
            run_loop 2 env t r msg w =
              (False, w3,
               pre @ [Callback m (Inl e), LogCallerError e, Callback m (Inr (PStr SUCCESS)), Ack a]
                   @ (case a of None \<Rightarrow> [] | Some e' \<Rightarrow> [LogBusError e']))
            \<and> callbacks (trace (run_loop 2 env t r msg w)) = 2
            \<and> acks (trace (run_loop 2 env t r msg w)) = 1
            \<and> acknowledged (trace (run_loop 2 env t r msg w)) = (case a of None \<Rightarrow> 1 | Some e' \<Rightarrow> 0))"
proof -
  note it = pass_handed[OF h]
  from h have pre: "pre = [] \<or> pre = [Receive t (Inr m)]" by auto
  have a: "p = \<lparr>ctl = Continue, retry = True, message = m, world = w1,
              events = pre @ [Callback m (Inl e), LogCallerError e]\<rparr>"
    by (simp add: p it deliver_raise[OF cb])
  have a1: "acks (events p) = 0"
    using pre unfolding a by (auto simp: acks_def)
  have q: "iteration env t (retry p) (message p) (world p) = deliver env True m w1"
    unfolding a by (simp add: iteration_def)
  have b: "\<forall>n. \<exists>rest. trace (run_loop (Suc (Suc n)) env t r msg w) =
                     events p @ Callback m (fst (callback env m w1)) # rest"
    if w: "\<not> stop_flag w" and w': "\<not> stop_flag w1"
  proof
    fix n
    from a have c: "ctl p = Continue" and wp: "world p = w1" by simp_all
    from callback_first_exact[of env True m w1] obtain evs where
      "events (deliver env True m w1) = Callback m (fst (callback env m w1)) # evs" by blast
    with loop_two_passes[OF w p c _ refl, of n] w' wp q
    show "\<exists>rest. trace (run_loop (Suc (Suc n)) env t r msg w) =
                     events p @ Callback m (fst (callback env m w1)) # rest"
      by auto
  qed
  have c: "run_loop 2 env t r msg w =
              (False, w3,
               pre @ [Callback m (Inl e), LogCallerError e, Callback m (Inr (PStr SUCCESS)), Ack a]
                   @ (case a of None \<Rightarrow> [] | Some e' \<Rightarrow> [LogBusError e']))"
    if w: "\<not> stop_flag w" and w': "\<not> stop_flag w1"
      and cb2: "callback env m w1 = (Inr (PStr SUCCESS), w2)" and ak: "ack env w2 = (a, w3)"
  proof -
    have d: "deliver env True m w1 =
        \<lparr>ctl = Continue, retry = False, message = m, world = w3,
         events = [Callback m (Inr (PStr SUCCESS)), Ack a]
                    @ (case a of None \<Rightarrow> [] | Some e' \<Rightarrow> [LogBusError e'])\<rparr>"
      by (cases a) (simp_all add: deliver_def cb2 ak)
    have it1: "iteration env t r msg w =
        \<lparr>ctl = Continue, retry = True, message = m, world = w1,
              events = pre @ [Callback m (Inl e), LogCallerError e]\<rparr>"
      using a p by simp
    have it2: "iteration env t True m w1 = deliver env True m w1"
      by (simp add: iteration_def)
    show ?thesis
      using w w' by (simp add: numeral_2_eq_2 it1 it2 d Let_def)
  qed
  have c1: "callbacks (trace (run_loop 2 env t r msg w)) = 2
            \<and> acks (trace (run_loop 2 env t r msg w)) = 1
            \<and> acknowledged (trace (run_loop 2 env t r msg w)) = (case a of None \<Rightarrow> 1 | Some e' \<Rightarrow> 0)"
    if w: "\<not> stop_flag w" and w': "\<not> stop_flag w1"
      and cb2: "callback env m w1 = (Inr (PStr SUCCESS), w2)" and ak: "ack env w2 = (a, w3)"
    using pre unfolding c[OF that]
    by (cases a) (auto simp: trace_def callbacks_def acks_def acknowledged_def)
  from a a1 q b c c1 show ?thesis by blast
qed

theorem C3_callback_exception_is_retry_witness:
  "run_loop 2 scripted 30 False PNone
       (playing [Inr (PStr ''m1'')] [Inl (Exn ''boom''), Inr (PStr SUCCESS)] []) =
     (False, playing [] [] [],
      [Receive 30 (Inr (PStr ''m1'')), Callback (PStr ''m1'') (Inl (Exn ''boom'')),
       LogCallerError (Exn ''boom''), Callback (PStr ''m1'') (Inr (PStr SUCCESS)), Ack None])
   \<and> callbacks (trace (run_loop 2 scripted 30 False PNone
       (playing [Inr (PStr ''m1'')] [Inl (Exn ''boom''), Inr (PStr SUCCESS)] []))) = 2
   \<and> acknowledged (trace (run_loop 2 scripted 30 False PNone
       (playing [Inr (PStr ''m1'')] [Inl (Exn ''boom''), Inr (PStr SUCCESS)] []))) = 1"
  using C3_callback_exception_is_retry [of False PNone "PStr ''m1''"
          "playing [] [Inl (Exn ''boom''), Inr (PStr SUCCESS)] []"
          "playing [Inr (PStr ''m1'')] [Inl (Exn ''boom''), Inr (PStr SUCCESS)] []"
          "[Receive 30 (Inr (PStr ''m1''))]" scripted 30 "Exn ''boom''"
          "playing [] [Inr (PStr SUCCESS)] []"
          "iteration scripted 30 False PNone
             (playing [Inr (PStr ''m1'')] [Inl (Exn ''boom''), Inr (PStr SUCCESS)] [])"
          "playing [] [] []" None "playing [] [] []"]
  by (simp add: scripted_def playing_def init_world_def SUCCESS_def trace_def callbacks_def
        acknowledged_def del: run_loop.simps)

section \<open>The flush after the loop\<close>

lemma flushed_counts: "callbacks (flushed ms) = 0 \<and> acks (flushed ms) = length ms \<and> polls (flushed ms) = length ms"
  by (induction ms) (simp_all add: callbacks_def acks_def polls_def)

lemma flushed_timeouts: "Receive tm got \<in> set (flushed ms) \<Longrightarrow> tm = 1"
  by (induction ms) auto

lemma received_flushed: "PNone \<notin> set ms \<Longrightarrow> received (flushed ms @ evs) = ms @ received evs"
  by (induction ms) auto

lemma flush_shape:
  "flush_loop n env w = (out, w', evs) \<Longrightarrow>
     \<exists>ms. PNone \<notin> set ms \<and>
       (case out of
          Stopped \<Rightarrow> evs = flushed ms @ [Receive 1 (Inr PNone)]
        | Unfinished \<Rightarrow> length ms = n \<and> evs = flushed ms
        | Crashed e \<Rightarrow> evs = flushed ms @ [Receive 1 (Inl e)]
              \<or> (\<exists>m. m \<noteq> PNone \<and> evs = flushed ms @ [Receive 1 (Inr m), LogFlushMessage m, Ack (Some e)]))"
proof (induction n arbitrary: w out w' evs)
  case 0
  then show ?case by (intro exI[of _ "[]"]) auto
next
  case (Suc n)
  obtain got w1 where rc: "receive env 1 w = (got, w1)" by (cases "receive env 1 w")
  show ?case
  proof (cases got)
    case (Inl e)
    with Suc.prems rc show ?thesis by (intro exI[of _ "[]"]) auto
  next
    case (Inr m)
    show ?thesis
    proof (cases "m = PNone")
      case True
      with Suc.prems rc Inr show ?thesis by (intro exI[of _ "[]"]) auto
    next
      case ne: False
      obtain a w2 where ak: "ack env w1 = (a, w2)" by (cases "ack env w1")
      show ?thesis
      proof (cases a)
        case (Some e)
        with Suc.prems rc Inr ne ak show ?thesis by (intro exI[of _ "[]"]) auto
      next
        case None
        obtain out2 w3 evs2 where rec: "flush_loop n env w2 = (out2, w3, evs2)"
          by (cases "flush_loop n env w2")
        from Suc.IH[OF rec] obtain ms where ms: "PNone \<notin> set ms"
          "case out2 of
          Stopped \<Rightarrow> evs2 = flushed ms @ [Receive 1 (Inr PNone)]
        | Unfinished \<Rightarrow> length ms = n \<and> evs2 = flushed ms
        | Crashed e \<Rightarrow> evs2 = flushed ms @ [Receive 1 (Inl e)]
              \<or> (\<exists>m. m \<noteq> PNone \<and> evs2 = flushed ms @ [Receive 1 (Inr m), LogFlushMessage m, Ack (Some e)])"
          by blast
        from Suc.prems rc Inr ne ak None rec have
          eq: "out = out2" "evs = Receive 1 (Inr m) # LogFlushMessage m # Ack None # evs2"
          by auto
        show ?thesis
          using ms ne unfolding eq
          by (intro exI[of _ "m # ms"]) (auto split: outcome.splits)
      qed
    qed
  qed
qed

lemma flush_step:
  "receive env 1 w = (Inr m, w1) \<Longrightarrow> m \<noteq> PNone \<Longrightarrow> ack env w1 = (None, w2) \<Longrightarrow>
   flush_loop n env w2 = (out, w', evs) \<Longrightarrow>
   flush_loop (Suc n) env w = (out, w', Receive 1 (Inr m) # LogFlushMessage m # Ack None # evs)"
  by simp

lemma flush_scripted:
  assumes "PNone \<notin> set ms"
    and "to_receive (outside w) = map Inr ms @ Inr PNone # rest"
    and "to_ack (outside w) = []"
  shows "flush_loop (Suc (length ms)) scripted w =
           (Stopped, w\<lparr>outside := (outside w)\<lparr>to_receive := rest\<rparr>\<rparr>,
            flushed ms @ [Receive 1 (Inr PNone)])"
  using assms
proof (induction ms arbitrary: w)
  case Nil
  then show ?case by (simp add: scripted_def)
next
  case (Cons m ms)
  let ?w1 = "w\<lparr>outside := (outside w)\<lparr>to_receive := map Inr ms @ Inr PNone # rest\<rparr>\<rparr>"
  have rc: "receive scripted 1 w = (Inr m, ?w1)"
    using Cons.prems by (simp add: scripted_def)
  have ak: "ack scripted ?w1 = (None, ?w1)"
    using Cons.prems by (simp add: scripted_def)
  have ne: "m \<noteq> PNone"
    using Cons.prems by auto
  have "flush_loop (Suc (length ms)) scripted ?w1 =
           (Stopped, ?w1\<lparr>outside := (outside ?w1)\<lparr>to_receive := rest\<rparr>\<rparr>,
            flushed ms @ [Receive 1 (Inr PNone)])"
    using Cons.prems by (intro Cons.IH) simp_all
  from flush_step[OF rc ne ak this] show ?case by simp
qed

lemma flush_counts:
  assumes "flush_loop n env w = (out, w', evs)"
  shows "callbacks evs = 0 \<and> acks evs = length (received evs)
       \<and> (\<forall>tm got. Receive tm got \<in> set evs \<longrightarrow> tm = 1)"
proof -
  from flush_shape[OF assms] obtain ms where ms: "PNone \<notin> set ms" and
    sh: "case out of
          Stopped \<Rightarrow> evs = flushed ms @ [Receive 1 (Inr PNone)]
        | Unfinished \<Rightarrow> length ms = n \<and> evs = flushed ms
        | Crashed e \<Rightarrow> evs = flushed ms @ [Receive 1 (Inl e)]
              \<or> (\<exists>m. m \<noteq> PNone \<and> evs = flushed ms @ [Receive 1 (Inr m), LogFlushMessage m, Ack (Some e)])"
    by blast
  have r0: "received (flushed ms) = ms"
    using received_flushed[OF ms, of "[]"] by simp
  show ?thesis
  proof (cases out)
    case Unfinished
    with sh ms r0 flushed_counts[of ms] flushed_timeouts[of _ _ ms] show ?thesis by auto
  next
    case Stopped
    with sh ms flushed_counts[of ms] flushed_timeouts[of _ _ ms] received_flushed[OF ms] show ?thesis
      by (auto simp: callbacks_def acks_def)
  next
    case (Crashed e)
    with sh ms flushed_counts[of ms] flushed_timeouts[of _ _ ms] received_flushed[OF ms] show ?thesis
      by (auto simp: callbacks_def acks_def)
  qed
qed

lemma drains_flush:
  "drains env w ms w' \<Longrightarrow> length ms < n \<Longrightarrow>
   flush_loop n env w = (Stopped, w', flushed ms @ [Receive 1 (Inr PNone)])"
proof (induction ms arbitrary: w n)
  case Nil
  then obtain k where "n = Suc k" by (cases n) auto
  with Nil show ?case by simp
next
  case (Cons m ms)
  from Cons.prems(2) obtain k where n: "n = Suc k" and k: "length ms < k"
    by (cases n) auto
  from Cons.prems(1) obtain w1 w2 where
    rc: "receive env 1 w = (Inr m, w1)" and ne: "m \<noteq> PNone"
    and ak: "ack env w1 = (None, w2)" and d: "drains env w2 ms w'"
    by (auto split: prod.splits sum.splits option.splits)
  from flush_step[OF rc ne ak Cons.IH[OF d k]] show ?case
    by (simp add: n)
qed

lemma flush_drains:
  "flush_loop n env w = (Stopped, w', evs) \<Longrightarrow>
   \<exists>ms. length ms < n \<and> drains env w ms w' \<and> evs = flushed ms @ [Receive 1 (Inr PNone)]"
proof (induction n arbitrary: w evs)
  case 0
  then show ?case by simp
next
  case (Suc n)
  obtain got w1 where rc: "receive env 1 w = (got, w1)" by (cases "receive env 1 w")
  show ?case
  proof (cases got)
    case (Inl e)
    with Suc.prems rc show ?thesis by simp
  next
    case (Inr m)
    show ?thesis
    proof (cases "m = PNone")
      case True
      with Suc.prems rc Inr show ?thesis by (intro exI[of _ "[]"]) auto
    next
      case ne: False
      obtain a w2 where ak: "ack env w1 = (a, w2)" by (cases "ack env w1")
      show ?thesis
      proof (cases a)
        case (Some e)
        with Suc.prems rc Inr ne ak show ?thesis by simp
      next
        case None
        obtain out2 w3 evs2 where rec: "flush_loop n env w2 = (out2, w3, evs2)"
          by (cases "flush_loop n env w2")
        from Suc.prems rc Inr ne ak None rec have
          eq: "out2 = Stopped" "w3 = w'"
              "evs = Receive 1 (Inr m) # LogFlushMessage m # Ack None # evs2"
          by auto
        from Suc.IH[of w2 evs2] rec eq obtain ms where
          ms: "length ms < n" "drains env w2 ms w'" "evs2 = flushed ms @ [Receive 1 (Inr PNone)]"
          by auto
        show ?thesis
          using ms ne rc Inr ak None eq(3)
          by (intro exI[of _ "m # ms"]) simp
      qed
    qed
  qed
qed

text \<open>
  Claim C4, as stated, at a flush in which the call of \<open>ack\<close> raises: the claim has every
  message met by the flush acknowledged, and the flush end after an empty poll. No \<open>try\<close>
  surrounds the loop of line 148: the first message is not acknowledged, the second is
  never polled, and the exception leaves \<open>run\<close>.
\<close>

theorem C4_flush_ack_raises_counterexample:
  "run (get_consumer_default 1 ''grp'' ''typ'') 30 scripted 4
       (stop True (playing [Inr (PStr ''m1''), Inr (PStr ''m2'')] [] [Some (Exn ''ack failed'')])) =
     (Crashed (Exn ''ack failed''), stop True (playing [Inr (PStr ''m2'')] [] []),
      [LogFlushStart ''typ'',
       Receive 1 (Inr (PStr ''m1'')), LogFlushMessage (PStr ''m1''),
       Ack (Some (Exn ''ack failed''))])"
  by (simp add: run_def eval_nat_numeral scripted_def playing_def init_world_def stop_def
        get_consumer_default_def get_consumer_def MessageBusConsumer_init_def)

text \<open>
  Claim C4, amended. Let the loop be left in a world where \<open>flush_on_exit\<close> is set, as it is
  once \<open>stop(flush=True)\<close> was called; when the stop event is already set at the first
  test, the loop is left at once, with no event. Then \<open>run\<close> goes on with the flush: it
  logs the start and polls with timeout 1 each time, and the callback is never called.
  As long as \<open>receive\<close> and \<open>ack\<close> return, each message a poll brings is acknowledged
  and dropped, until a poll brings nothing, and then \<open>run\<close> returns: its trace is poll,
  log line and acknowledgement for each message, and the empty poll last. \<open>run\<close> returns
  in no other way. A flush that has not ended after \<open>n\<close> polls has met \<open>n\<close> messages.
\<close>

theorem C4_flush_on_exit:
  assumes left: "run_loop n env t False PNone w = (True, w1, evs1)"
    and fl: "flush_on_exit w1"
    and f: "flush_loop n env w1 = (out, w2, evs2)"
  shows "run self t env n w = (out, w2, evs1 @ LogFlushStart (message_type self) # evs2)
       \<and> (stop_flag w \<longrightarrow> w1 = w \<and> evs1 = [])
       \<and> callbacks evs2 = 0
       \<and> (\<forall>tm got. Receive tm got \<in> set evs2 \<longrightarrow> tm = 1)
       \<and> (out = Stopped \<longrightarrow>
            (\<exists>ms. length ms < n \<and> drains env w1 ms w2
                  \<and> evs2 = flushed ms @ [Receive 1 (Inr PNone)]))
       \<and> (\<forall>ms w'. length ms < n \<and> drains env w1 ms w' \<longrightarrow>
            out = Stopped \<and> w2 = w' \<and> evs2 = flushed ms @ [Receive 1 (Inr PNone)])
       \<and> (out = Unfinished \<longrightarrow> (\<exists>ms. PNone \<notin> set ms \<and> length ms = n \<and> evs2 = flushed ms))"
proof -
  have a: "run self t env n w = (out, w2, evs1 @ LogFlushStart (message_type self) # evs2)"
    using left fl f by (simp add: run_def)
  have b: "stop_flag w \<longrightarrow> w1 = w \<and> evs1 = []"
    using left by (cases n) auto
  have c: "out = Stopped \<longrightarrow>
            (\<exists>ms. length ms < n \<and> drains env w1 ms w2
                  \<and> evs2 = flushed ms @ [Receive 1 (Inr PNone)])"
    using flush_drains[of n env w1 w2 evs2] f by auto
  have d: "\<forall>ms w'. length ms < n \<and> drains env w1 ms w' \<longrightarrow>
            out = Stopped \<and> w2 = w' \<and> evs2 = flushed ms @ [Receive 1 (Inr PNone)]"
    using drains_flush[of env w1 _ _ n] f by auto
  from flush_shape[OF f] have
    c': "out = Unfinished \<longrightarrow> (\<exists>ms. PNone \<notin> set ms \<and> length ms = n \<and> evs2 = flushed ms)"
    by (auto split: outcome.splits)
  from flush_counts[OF f] have k: "callbacks evs2 = 0"
    "\<forall>tm got. Receive tm got \<in> set evs2 \<longrightarrow> tm = 1"
    by blast+
  show ?thesis
    by (intro conjI; (rule a b c d c' k))
qed

theorem C4_flush_on_exit_witness:
  "run (get_consumer_default 1 ''grp'' ''typ'') 30 scripted 4
       (stop True (playing [Inr (PStr ''m1''), Inr (PStr ''m2''), Inr (PStr ''m3'')] [] [])) =
     (Stopped, stop True (playing [] [] []),
      [LogFlushStart ''typ'',
       Receive 1 (Inr (PStr ''m1'')), LogFlushMessage (PStr ''m1''), Ack None,
       Receive 1 (Inr (PStr ''m2'')), LogFlushMessage (PStr ''m2''), Ack None,
       Receive 1 (Inr (PStr ''m3'')), LogFlushMessage (PStr ''m3''), Ack None,
       Receive 1 (Inr PNone)])
   \<and> drains scripted
        (stop True (playing [Inr (PStr ''m1''), Inr (PStr ''m2''), Inr (PStr ''m3'')] [] []))
        [PStr ''m1'', PStr ''m2'', PStr ''m3''] (stop True (playing [] [] []))"
  using C4_flush_on_exit [of 4 scripted 30
          "stop True (playing [Inr (PStr ''m1''), Inr (PStr ''m2''), Inr (PStr ''m3'')] [] [])"
          "stop True (playing [Inr (PStr ''m1''), Inr (PStr ''m2''), Inr (PStr ''m3'')] [] [])" "[]"
          Stopped "stop True (playing [] [] [])"
          "[Receive 1 (Inr (PStr ''m1'')), LogFlushMessage (PStr ''m1''), Ack None,
            Receive 1 (Inr (PStr ''m2'')), LogFlushMessage (PStr ''m2''), Ack None,
            Receive 1 (Inr (PStr ''m3'')), LogFlushMessage (PStr ''m3''), Ack None,
            Receive 1 (Inr PNone)]"
          "get_consumer_default 1 ''grp'' ''typ''"]
  by (simp add: eval_nat_numeral scripted_def playing_def init_world_def stop_def
        get_consumer_default_def get_consumer_def MessageBusConsumer_init_def)

section \<open>Exceptions of the transport, and stopping\<close>












section \<open>The timeout of the poll\<close>

text \<open>
  Claim C5. The claim has the poll wait for the timeout the consumer was constructed with,
  a timeout of 0 meaning a poll without bound. \<open>__init__\<close> stores that timeout, and the
  docstring of \<open>get_consumer\<close> calls it the "max wait time for thread to wait for a
  message". \<open>run\<close> does not read it: whatever the consumer's \<open>timeout\<close> is, 0 included,
  every poll of the loop is \<open>receive(timeout=const.CORTX_HA_WAIT_TIMEOUT)\<close>, here with
  \<open>k\<close> for the constant.
\<close>

theorem C5_poll_timeout_is_the_constant:
  "timeout (get_consumer cid grp mtype aack off tmo) = tmo
   \<and> run (get_consumer cid grp mtype aack off tmo) k scripted 1 (playing [] [] []) =
       (Unfinished, playing [] [] [], [Receive k (Inr PNone)])
   \<and> run (get_consumer cid grp mtype aack off tmo) k scripted 2 (playing [Inr (PStr ''m1'')] [Inr (PStr SUCCESS)] []) =
       (Unfinished, playing [] [] [], [Receive k (Inr (PStr ''m1'')), Callback (PStr ''m1'') (Inr (PStr SUCCESS)), Ack None, Receive k (Inr PNone)])"
  by (simp add: run_def iteration_def deliver_def scripted_def playing_def init_world_def
        get_consumer_def MessageBusConsumer_init_def Let_def numeral_2_eq_2)

section \<open>What publish sends\<close>

text \<open>
  Claim C6, as stated, at the list \<open>[1, "x"]\<close>: the claim has \<open>publish\<close> raise and send
  nothing for a list with an element that is not a string. \<open>publish\<close> does not raise
  there; the transport is sent the list as it is.
\<close>

theorem C6_list_elements_unchecked:
  "publish dumps_a1 keep_batch (PList [PInt 1, PStr ''x'']) [] = (None, [PList [PInt 1, PStr ''x'']])
   \<and> fst (publish dumps_a1 keep_batch (PList [PInt 1, PStr ''x'']) []) \<noteq>
        Some (InvalidTypeOfMessage (PList [PInt 1, PStr ''x'']))
   \<and> snd (publish dumps_a1 keep_batch (PList [PInt 1, PStr ''x'']) []) \<noteq> []"
  by (simp add: publish_def keep_batch_def)

text \<open>
  Claim C6, amended. \<open>publish\<close> serializes a mapping with \<open>json.dumps\<close> and sends the
  resulting string as a batch of one element; the mapping goes to \<open>json.dumps\<close>
  unchanged, its keys in the order it has them. It sends a string as a batch of one
  element. It sends a list as it is, in its order, whatever its elements are. For a value
  that is no mapping, no string and no list it raises "Invalid type of message" and the
  transport is not called. What \<open>send\<close> raises passes through.
\<close>

theorem C6_publish_by_type:
  "(dumps (PDict kvs) = Inr s \<longrightarrow>
      publish dumps send (PDict kvs) p =
        (case send (PList [PStr s]) p of (r, p') \<Rightarrow> (map_option Passed r, p')))
   \<and> publish dumps send (PStr s') p =
        (case send (PList [PStr s']) p of (r, p') \<Rightarrow> (map_option Passed r, p'))
   \<and> publish dumps send (PList xs) p =
        (case send (PList xs) p of (r, p') \<Rightarrow> (map_option Passed r, p'))
   \<and> ((\<forall>kvs'. msg \<noteq> PDict kvs') \<and> (\<forall>s''. msg \<noteq> PStr s'') \<and> (\<forall>xs'. msg \<noteq> PList xs') \<longrightarrow>
        publish dumps send msg p = (Some (InvalidTypeOfMessage msg), p))"
  by (cases msg) (simp_all add: publish_def)

theorem C6_publish_by_type_witness:
  "publish dumps_a1 keep_batch (PDict [(PStr ''a'', PInt 1)]) [] = (None, [PList [PStr ''{\"a\": 1}'']])
   \<and> publish dumps_a1 keep_batch (PStr ''x'') [] = (None, [PList [PStr ''x'']])
   \<and> publish dumps_a1 keep_batch (PList [PStr ''x'', PStr ''y'']) [] = (None, [PList [PStr ''x'', PStr ''y'']])
   \<and> publish dumps_a1 keep_batch (PInt 42) [] = (Some (InvalidTypeOfMessage (PInt 42)), [])"
  using C6_publish_by_type [of dumps_a1 "[(PStr ''a'', PInt 1)]" "''{\"a\": 1}''" keep_batch "[]" "''x''"
          "[PStr ''x'', PStr ''y'']" "PInt 42"]
  by (simp add: dumps_a1_def keep_batch_def)

section \<open>Registering a message type\<close>

lemma occurs_in_sublist: "occurs_in p s = sublist p s"
  by (induction s) (auto simp: sublist_Cons_right)

lemma register_quiet:
  assumes l: "\<forall>x e. fst (lst x) \<noteq> Inl e"
    and r: "\<forall>ts ps x e. fst (reg ts ps x) = Some e \<longrightarrow> already_exists e"
  shows "fst (register lst reg mtype parts a) = None"
proof -
  obtain got a1 where g: "lst a = (got, a1)" by (cases "lst a")
  with l[rule_format, of a] obtain known where k: "got = Inr known"
    by (cases got) auto
  obtain res a2 where rr: "reg [mtype] parts a1 = (res, a2)" by (cases "reg [mtype] parts a1")
  show ?thesis
    using g k rr r[rule_format, of "[mtype]" parts a1]
    by (cases res) (auto simp: register_def)
qed

text \<open>
  Claim C7. \<open>register\<close> lists the known message types first. A type in the list is not
  registered again: the call returns with the administration as the listing left it.
  A type not in the list is registered. When that fails with an exception whose text
  contains \<open>TOPIC_ALREADY_EXISTS\<close>, the exception is swallowed and the call returns; any
  other exception of the registration reaches the caller. Hence, with a transport whose
  listing does not fail and whose registration fails only in that way, no call of
  \<open>register\<close> raises, the second for the same type included.
\<close>

theorem C7_register_tolerates_existing:
  "(lst a = (Inr known, a1) \<and> mtype \<in> set known \<longrightarrow>
      register lst reg mtype parts a = (None, a1))
   \<and> (lst a = (Inr known, a1) \<and> mtype \<notin> set known \<and> reg [mtype] parts a1 = (None, a2) \<longrightarrow>
      register lst reg mtype parts a = (None, a2))
   \<and> (lst a = (Inr known, a1) \<and> mtype \<notin> set known \<and> reg [mtype] parts a1 = (Some e, a2)
        \<and> already_exists e \<longrightarrow>
      register lst reg mtype parts a = (None, a2))
   \<and> (lst a = (Inr known, a1) \<and> mtype \<notin> set known \<and> reg [mtype] parts a1 = (Some e, a2)
        \<and> \<not> already_exists e \<longrightarrow>
      register lst reg mtype parts a = (Some e, a2))
   \<and> ((\<forall>x e'. fst (lst x) \<noteq> Inl e') \<and> (\<forall>ts ps x e'. fst (reg ts ps x) = Some e' \<longrightarrow> already_exists e') \<longrightarrow>
        fst (register lst reg mtype parts a) = None
        \<and> fst (register lst reg mtype parts (snd (register lst reg mtype parts a))) = None)"
  using register_quiet[of lst reg mtype parts]
  by (auto simp: register_def)

theorem C7_register_tolerates_existing_witness:
  "register list_kept register_kept ''alerts'' 1 [] = (None, [''alerts''])
   \<and> register list_kept register_kept ''alerts'' 1 [''alerts''] = (None, [''alerts''])
   \<and> register list_stale register_kept ''alerts'' 1 [''alerts''] = (None, [''alerts''])
   \<and> register list_kept register_down ''alerts'' 1 [] = (Some (Exn ''broker not available''), [])
   \<and> fst (register list_stale register_kept ''alerts'' 1
             (snd (register list_stale register_kept ''alerts'' 1 []))) = None"
  using C7_register_tolerates_existing [of list_kept "[]" "[]" "[]" "''alerts''" register_kept 1 "[''alerts'']" "Exn ''x''"]
        C7_register_tolerates_existing [of list_kept "[''alerts'']" "[''alerts'']" "[''alerts'']" "''alerts''" register_kept 1 "[''alerts'']" "Exn ''x''"]
        C7_register_tolerates_existing [of list_stale "[''alerts'']" "[]" "[''alerts'']" "''alerts''" register_kept 1 "[''alerts'']"
             "Exn ''KafkaError{code=TOPIC_ALREADY_EXISTS,val=36}''"]
        C7_register_tolerates_existing [of list_kept "[]" "[]" "[]" "''alerts''" register_down 1 "[]" "Exn ''broker not available''"]
        C7_register_tolerates_existing [of list_stale "[]" "[]" "[]" "''alerts''" register_kept 1 "[]" "Exn ''x''"]
  by (simp add: list_kept_def list_stale_def register_kept_def register_down_def already_exists_def)

end
